theory Spec2Isabelle
  imports Complex_Main "HOL-Library.Char_ord" "HOL-Library.List_Lexorder"
    "HOL-Library.Finite_Map"
begin

section \<open>Common Python notions\<close>

text \<open>
  Python strings are modelled as \<^typ>\<open>string\<close>, read as sequences of code points
  below 256 (the Latin-1 range); comparison of strings is lexicographic by code point, as
  Python's is. Exceptions are values of \<open>py_exception\<close>.
\<close>

datatype py_exception =
  KeyboardInterrupt | EOFError | ValueError | IndexError | TypeError | PermissionError
  | URLError | OSError | JSONDecodeError | OverflowError | AttributeError

subsection \<open>\<open>str.isdigit\<close> and \<open>int(str)\<close>\<close>

text \<open>
  \<open>str.isdigit\<close> holds for a non-empty string all of whose characters are digits. Below
  code point 256 these are \<open>0\<close>..\<open>9\<close> and the superscripts U+00B2, U+00B3 and U+00B9. The
  superscripts are digits but not decimal digits: \<open>int\<close> raises ValueError on them.
\<close>

definition ascii_decimal :: "char \<Rightarrow> bool" where
  "ascii_decimal c = (48 \<le> (of_char c :: nat) \<and> (of_char c :: nat) \<le> 57)"

definition digit_char :: "char \<Rightarrow> bool" where
  "digit_char c = (ascii_decimal c \<or> (of_char c :: nat) = 178 \<or> (of_char c :: nat) = 179
     \<or> (of_char c :: nat) = 185)"

definition isdigit :: "string \<Rightarrow> bool" where
  "isdigit s = (s \<noteq> [] \<and> list_all digit_char s)"

text \<open>
  \<open>int(s)\<close> for a string that passed \<open>isdigit\<close>: the decimal value, or ValueError when
  a character is not a decimal digit or (CPython 3.11 and later) when the string has more
  than 4300 digits.
\<close>

definition py_int :: "string \<Rightarrow> py_exception + int" where
  "py_int s =
     (if s \<noteq> [] \<and> list_all ascii_decimal s \<and> length s \<le> 4300
      then Inr (foldl (\<lambda>a c. 10 * a + (int (of_char c) - 48)) 0 s)
      else Inl ValueError)"

text \<open>\<open>xs[i]\<close> for a list: negative indices count from the end, out of range raises.\<close>

definition py_index :: "'a list \<Rightarrow> int \<Rightarrow> py_exception + 'a" where
  "py_index xs i =
     (let j = (if i < 0 then i + int (length xs) else i)
      in if 0 \<le> j \<and> j < int (length xs) then Inr (xs ! nat j) else Inl IndexError)"

section \<open>Installer: \<open>select_option\<close> and \<open>select_release\<close>\<close>

text \<open>
  One call of \<open>input()\<close> either returns the typed line or is interrupted with Ctrl-C
  (KeyboardInterrupt). The console is the list of these events still to come; on an
  exhausted console \<open>input()\<close> raises EOFError, as it does on a closed standard input.
  Printing does not influence the value returned and is left out.
\<close>

datatype console_event = Typed string | CtrlC

text \<open>
  How a selection ended. The Python function returns the chosen element for \<open>Picked\<close>
  and \<open>None\<close> in every other case; \<open>Errored e\<close> is the handler
  \<open>except Exception as e\<close> with the exception it caught.
\<close>

datatype 'a selected = Picked 'a | NoOptions | WentBack | Aborted | Errored py_exception

fun returned :: "'a selected \<Rightarrow> 'a option" where
  "returned (Picked x) = Some x"
| "returned NoOptions = None"
| "returned WentBack = None"
| "returned Aborted = None"
| "returned (Errored e) = None"

text \<open>The \<open>while True\<close> loop of \<open>select_option\<close>; it returns what is left of the console.\<close>

fun select_option_loop ::
  "'a list \<Rightarrow> bool \<Rightarrow> console_event list \<Rightarrow> 'a selected \<times> console_event list" where
  "select_option_loop options allow_back [] = (Aborted, [])"
| "select_option_loop options allow_back (CtrlC # rest) = (Aborted, rest)"
| "select_option_loop options allow_back (Typed choice # rest) =
     (if choice = ''0'' \<and> allow_back then (WentBack, rest)
      else if isdigit choice then
        (case py_int choice of
           Inl e \<Rightarrow> (Errored e, rest)
         | Inr n \<Rightarrow>
             (let idx = n - 1 in
              if 0 \<le> idx \<and> idx < int (length options) then
                (case py_index options idx of
                   Inl e \<Rightarrow> (Errored e, rest)
                 | Inr x \<Rightarrow> (Picked x, rest))
              else select_option_loop options allow_back rest))
      else select_option_loop options allow_back rest)"

definition select_option ::
  "'a list \<Rightarrow> bool \<Rightarrow> console_event list \<Rightarrow> 'a selected \<times> console_event list" where
  "select_option options allow_back console =
     (if options = [] then (NoOptions, console)
      else select_option_loop options allow_back console)"

text \<open>The loop of \<open>select_release\<close>: the same, with the exit on \<open>0\<close> always there.\<close>

fun select_release_loop ::
  "'a list \<Rightarrow> console_event list \<Rightarrow> 'a selected \<times> console_event list" where
  "select_release_loop releases [] = (Aborted, [])"
| "select_release_loop releases (CtrlC # rest) = (Aborted, rest)"
| "select_release_loop releases (Typed choice # rest) =
     (if choice = ''0'' then (WentBack, rest)
      else if isdigit choice then
        (case py_int choice of
           Inl e \<Rightarrow> (Errored e, rest)
         | Inr n \<Rightarrow>
             (let idx = n - 1 in
              if 0 \<le> idx \<and> idx < int (length releases) then
                (case py_index releases idx of
                   Inl e \<Rightarrow> (Errored e, rest)
                 | Inr x \<Rightarrow> (Picked x, rest))
              else select_release_loop releases rest))
      else select_release_loop releases rest)"

definition select_release ::
  "'a list \<Rightarrow> console_event list \<Rightarrow> 'a selected \<times> console_event list" where
  "select_release releases console =
     (if releases = [] then (NoOptions, console)
      else select_release_loop releases console)"

section \<open>Installer: values decoded from JSON\<close>

text \<open>
  What \<open>json.load\<close> returns, up to Python's \<open>==\<close>: \<open>None\<close>, numbers, strings, lists and
  dictionaries with string keys. A number stands for every Python number equal to it: the
  \<open>int\<close> 1, the \<open>float\<close> 1.0 and \<open>True\<close> are equal, hash alike and order alike, so JSON
  \<open>true\<close> and \<open>false\<close> are the numbers 1 and 0. The non-standard literals NaN and
  Infinity are not modelled.
\<close>

datatype pyval = PNone | PNum rat | PStr string | PList "pyval list" | PDict "(string, pyval) fmap"

text \<open>Truth value of an object, as \<open>if value:\<close> tests it.\<close>

fun truthy :: "pyval \<Rightarrow> bool" where
  "truthy PNone = False"
| "truthy (PNum q) = (q \<noteq> 0)"
| "truthy (PStr s) = (s \<noteq> [])"
| "truthy (PList xs) = (xs \<noteq> [])"
| "truthy (PDict d) = (d \<noteq> fmempty)"

text \<open>Lists and dictionaries are unhashable: adding one to a set raises TypeError.\<close>

fun hashable :: "pyval \<Rightarrow> bool" where
  "hashable (PList xs) = False"
| "hashable (PDict d) = False"
| "hashable v = True"

section \<open>Installer: \<open>get_unique_values\<close>\<close>

text \<open>
  A catalog entry is meant to be a dictionary; \<open>d.get(key)\<close> on a dictionary is \<open>None\<close>
  for a missing key. \<open>self.api_data\<close> holds whatever JSON value was loaded, so an entry can
  be any value: \<open>item.get\<close> on a value that is not a dictionary raises AttributeError.
\<close>

type_synonym item = "(string, pyval) fmap"

definition dict_get :: "item \<Rightarrow> string \<Rightarrow> pyval" where
  "dict_get d key = (case fmlookup d key of None \<Rightarrow> PNone | Some v \<Rightarrow> v)"

fun item_get :: "pyval \<Rightarrow> string \<Rightarrow> py_exception + pyval" where
  "item_get (PDict d) key = Inr (dict_get d key)"
| "item_get v key = Inl AttributeError"

text \<open>
  \<open>len(self.api_data)\<close> followed by \<open>enumerate(self.api_data, 1)\<close>: a list yields its
  elements, a string its characters, a dictionary its keys (here in sorted order; every
  key is a string, so the order has no influence on what the loop does with them); a
  number has no \<open>len\<close>.
\<close>

fun py_iter :: "pyval \<Rightarrow> py_exception + pyval list" where
  "py_iter (PList xs) = Inr xs"
| "py_iter (PStr s) = Inr (map (\<lambda>c. PStr [c]) s)"
| "py_iter (PDict d) = Inr (map PStr (sorted_list_of_fset (fmdom d)))"
| "py_iter v = Inl TypeError"

text \<open>
  \<open>values.add(value)\<close>. The set is kept as the list of its elements in order of insertion;
  the order has no influence on the result, which is sorted.
\<close>

definition set_add :: "pyval list \<Rightarrow> pyval \<Rightarrow> py_exception + pyval list" where
  "set_add values v =
     (if hashable v then Inr (if v \<in> set values then values else values @ [v])
      else Inl TypeError)"

fun is_number :: "pyval \<Rightarrow> bool" where
  "is_number (PNum q) = True"
| "is_number v = False"

fun is_string :: "pyval \<Rightarrow> bool" where
  "is_string (PStr s) = True"
| "is_string v = False"

fun num_of :: "pyval \<Rightarrow> rat" where
  "num_of (PNum q) = q"
| "num_of v = 0"

fun str_of :: "pyval \<Rightarrow> string" where
  "str_of (PStr s) = s"
| "str_of v = []"

text \<open>
  \<open>sorted(values)\<close> on the elements of a set: numbers are ordered among themselves and
  strings among themselves (by code point); comparing a number with a string raises
  TypeError, which happens as soon as the set holds both. A list of at most one element is
  returned without any comparison.
\<close>

definition sorted_values :: "pyval list \<Rightarrow> py_exception + pyval list" where
  "sorted_values vs =
     (if length vs \<le> 1 then Inr vs
      else if list_all is_number vs then Inr (map PNum (sort (map num_of vs)))
      else if list_all is_string vs then Inr (map PStr (sort (map str_of vs)))
      else Inl TypeError)"

text \<open>The inner loop over \<open>filters.items()\<close>, with its \<open>break\<close> at the first mismatch.\<close>

fun filters_match :: "(string \<times> pyval) list \<Rightarrow> pyval \<Rightarrow> py_exception + bool" where
  "filters_match [] item = Inr True"
| "filters_match ((key, value) # rest) item =
     (case item_get item key of
        Inl e \<Rightarrow> Inl e
      | Inr v \<Rightarrow> if v \<noteq> value then Inr False else filters_match rest item)"

text \<open>
  The loop over \<open>self.api_data\<close>. \<open>if filters:\<close> is false for \<open>None\<close> and for the empty
  dictionary. The progress bar only prints.
\<close>

fun collect_values ::
  "string \<Rightarrow> (string \<times> pyval) list option \<Rightarrow> pyval list \<Rightarrow> pyval list
     \<Rightarrow> py_exception + pyval list" where
  "collect_values field filters [] values = Inr values"
| "collect_values field filters (item # rest) values =
     (case (case filters of
              None \<Rightarrow> Inr True
            | Some fs \<Rightarrow> if fs = [] then Inr True else filters_match fs item) of
        Inl e \<Rightarrow> Inl e
      | Inr match \<Rightarrow>
          if \<not> match then collect_values field filters rest values
          else (case item_get item field of
                  Inl e \<Rightarrow> Inl e
                | Inr value \<Rightarrow>
                    if truthy value then
                      (case set_add values value of
                         Inl e \<Rightarrow> Inl e
                       | Inr values' \<Rightarrow> collect_values field filters rest values')
                    else collect_values field filters rest values))"

text \<open>
  \<open>get_unique_values\<close>. \<open>if not self.api_data\<close> holds for \<open>None\<close> (nothing loaded yet) and
  for every other falsy value.
\<close>

definition get_unique_values ::
  "pyval \<Rightarrow> string \<Rightarrow> (string \<times> pyval) list option \<Rightarrow> py_exception + pyval list" where
  "get_unique_values api_data field filters =
     (if \<not> truthy api_data then Inr []
      else (case py_iter api_data of
              Inl e \<Rightarrow> Inl e
            | Inr items \<Rightarrow>
                (case collect_values field filters items [] of
                   Inl e \<Rightarrow> Inl e
                 | Inr values \<Rightarrow> sorted_values values)))"

text \<open>
  The specification side of claim C6, for a catalog that is a list of dictionaries: the
  truthy values that \<open>field\<close> takes among the entries that agree with every pair of the
  filter mapping, and their sorted list.
\<close>

definition filter_pairs :: "(string \<times> pyval) list option \<Rightarrow> (string \<times> pyval) list" where
  "filter_pairs filters = (case filters of None \<Rightarrow> [] | Some fs \<Rightarrow> fs)"

definition field_values :: "item list \<Rightarrow> string \<Rightarrow> (string \<times> pyval) list option \<Rightarrow> pyval set" where
  "field_values items field filters =
     {v. \<exists>item \<in> set items.
           (\<forall>(key, value) \<in> set (filter_pairs filters). dict_get item key = value)
           \<and> dict_get item field = v \<and> truthy v}"

definition sorted_distinct :: "pyval set \<Rightarrow> pyval list" where
  "sorted_distinct V =
     (if \<forall>v \<in> V. is_number v then map PNum (sorted_list_of_set {q. PNum q \<in> V})
      else map PStr (sorted_list_of_set {s. PStr s \<in> V}))"

section \<open>Settings files of both tools\<close>






section \<open>Size formatting: \<open>format_size\<close> and \<open>human_size\<close>\<close>

text \<open>
  Sizes are byte counts, natural numbers. A Python \<open>float\<close> is modelled by the rational it
  denotes. Three facts of CPython's arithmetic enter the model: converting an \<open>int\<close> to
  \<open>float\<close> rounds to 53 significant bits, ties to even (\<open>round53\<close>), and raises
  OverflowError beyond the range of a double; dividing a \<open>float\<close> by 1024 is exact, the
  divisor being a power of two; and \<open>format(x, ".2f")\<close> is the exact decimal expansion of
  \<open>x\<close> rounded to two places, ties to even (\<open>format_fixed\<close>).
\<close>

definition round_half_even :: "rat \<Rightarrow> int" where
  "round_half_even q =
     (let f = \<lfloor>q\<rfloor>; r = q - of_int f in
      if r < 1 / 2 then f else if 1 / 2 < r then f + 1 else if even f then f else f + 1)"

text \<open>The decimal digits of a natural number.\<close>

fun digits :: "nat \<Rightarrow> string" where
  "digits n =
     (if n < 10 then [''0123456789'' ! n]
      else digits (n div 10) @ [''0123456789'' ! (n mod 10)])"

declare digits.simps [simp del]

text \<open>\<open>f"{x:.{d}f}"\<close> for \<open>x \<ge> 0\<close> and \<open>d > 0\<close>.\<close>

definition format_fixed :: "nat \<Rightarrow> rat \<Rightarrow> string" where
  "format_fixed d x =
     (let r = nat (round_half_even (x * 10 ^ d)); frac = digits (r mod 10 ^ d) in
      digits (r div 10 ^ d) @ ''.'' @ replicate (d - length frac) CHR ''0'' @ frac)"

text \<open>\<open>int.bit_length\<close>, and \<open>float(n)\<close> without the range check.\<close>

fun bit_length :: "nat \<Rightarrow> nat" where
  "bit_length n = (if n = 0 then 0 else Suc (bit_length (n div 2)))"

declare bit_length.simps [simp del]

definition round53 :: "nat \<Rightarrow> nat" where
  "round53 n =
     (if bit_length n \<le> 53 then n
      else (let s = bit_length n - 53; q = n div 2 ^ s; r = n mod 2 ^ s in
            (if r < 2 ^ (s - 1) then q
             else if 2 ^ (s - 1) < r then q + 1
             else if even q then q else q + 1) * 2 ^ s))"


text \<open>The variable \<open>size_bytes\<close> holds an \<open>int\<close> at first and a \<open>float\<close> after a division.\<close>

datatype number = PyInt nat | PyFloat rat

fun value_of :: "number \<Rightarrow> rat" where
  "value_of (PyInt n) = of_nat n"
| "value_of (PyFloat x) = x"

fun to_float :: "number \<Rightarrow> py_exception + rat" where
  "to_float (PyInt n) =
     (if round53 n < 2 ^ 1024 then Inr (of_nat (round53 n)) else Inl OverflowError)"
| "to_float (PyFloat x) = Inr x"

text \<open>
  \<open>size_bytes / 1024.0\<close> converts an \<open>int\<close> to \<open>float\<close> first; \<open>size_bytes / 1024\<close> on an
  \<open>int\<close> is the correctly rounded quotient, which overflows only when the quotient does.
\<close>

fun div_1024_float :: "number \<Rightarrow> py_exception + number" where
  "div_1024_float (PyInt n) =
     (if round53 n < 2 ^ 1024 then Inr (PyFloat (of_nat (round53 n) / 1024))
      else Inl OverflowError)"
| "div_1024_float (PyFloat x) = Inr (PyFloat (x / 1024))"

fun div_1024_int :: "number \<Rightarrow> py_exception + number" where
  "div_1024_int (PyInt n) =
     (if round53 n < 2 ^ 1034 then Inr (PyFloat (of_nat (round53 n) / 1024))
      else Inl OverflowError)"
| "div_1024_int (PyFloat x) = Inr (PyFloat (x / 1024))"

text \<open>
  Archiver. The loop \<open>for unit in units\<close> of \<open>format_size\<close>, entered with the current unit
  and the units still to come; when the list runs out the loop ends with the last unit.
\<close>

fun format_size_loop :: "number \<Rightarrow> string \<Rightarrow> string list \<Rightarrow> py_exception + number \<times> string" where
  "format_size_loop size_bytes unit rest =
     (if value_of size_bytes < 1024 \<or> unit = ''GB'' then Inr (size_bytes, unit)
      else (case div_1024_float size_bytes of
              Inl e \<Rightarrow> Inl e
            | Inr size_bytes' \<Rightarrow>
                (case rest of
                   [] \<Rightarrow> Inr (size_bytes', unit)
                 | unit' # rest' \<Rightarrow> format_size_loop size_bytes' unit' rest')))"

declare format_size_loop.simps [simp del]

definition format_size :: "nat \<Rightarrow> py_exception + string" where
  "format_size size_bytes =
     (if size_bytes = 0 then Inr ''0 B''
      else (case format_size_loop (PyInt size_bytes) ''B'' [''KB'', ''MB'', ''GB''] of
              Inl e \<Rightarrow> Inl e
            | Inr (size_bytes', unit) \<Rightarrow>
                (case to_float size_bytes' of
                   Inl e \<Rightarrow> Inl e
                 | Inr x \<Rightarrow> Inr (format_fixed 2 x @ '' '' @ unit))))"

text \<open>
  Installer. The units of \<open>human_size\<close> are Cyrillic, outside the Latin-1 range of
  \<^typ>\<open>string\<close>: its result is a list of code points (U+0411 is 1041, U+041A is 1050,
  U+041C is 1052, U+0413 is 1043, U+0422 is 1058).
\<close>

type_synonym ustring = "nat list"

definition ustr :: "string \<Rightarrow> ustring" where
  "ustr s = map of_char s"

definition units_ru :: "ustring list" where
  "units_ru = [[1041], [1050, 1041], [1052, 1041], [1043, 1041], [1058, 1041]]"

function human_size_loop :: "number \<Rightarrow> nat \<Rightarrow> py_exception + number \<times> nat" where
  "human_size_loop size_bytes unit =
     (if 1024 \<le> value_of size_bytes \<and> unit < length units_ru - 1 then
        (case div_1024_int size_bytes of
           Inl e \<Rightarrow> Inl e
         | Inr size_bytes' \<Rightarrow> human_size_loop size_bytes' (unit + 1))
      else Inr (size_bytes, unit))"
  by pat_completeness auto
termination
  by (relation "measure (\<lambda>(size_bytes, unit). length units_ru - 1 - unit)") auto

declare human_size_loop.simps [simp del]

definition human_size :: "nat \<Rightarrow> py_exception + ustring" where
  "human_size size_bytes =
     (if size_bytes = 0 then Inr (ustr ''0 '' @ [1041])
      else (case human_size_loop (PyInt size_bytes) 0 of
              Inl e \<Rightarrow> Inl e
            | Inr (size_bytes', unit) \<Rightarrow>
                (case to_float size_bytes' of
                   Inl e \<Rightarrow> Inl e
                 | Inr x \<Rightarrow>
                     (case py_index units_ru (int unit) of
                        Inl e \<Rightarrow> Inl e
                      | Inr u \<Rightarrow> Inr (ustr (format_fixed 1 x) @ ustr '' '' @ u)))))"

text \<open>
  The specification side of claim C7: the least index \<open>k\<close> with \<open>n / 1024^k < 1024\<close>,
  capped at the index of the last unit.
\<close>

definition least_unit_index :: "nat \<Rightarrow> nat \<Rightarrow> nat" where
  "least_unit_index cap n = (LEAST k. k = cap \<or> of_nat n / 1024 ^ k < (1024 :: rat))"

section \<open>Installer: \<open>fetch_api_data\<close>\<close>

text \<open>\<open>str.startswith\<close>, \<open>str.endswith\<close>, \<open>os.path.join\<close> (POSIX) and the slice \<open>xs[k:]\<close>.\<close>

definition startswith :: "string \<Rightarrow> string \<Rightarrow> bool" where
  "startswith s p = (take (length p) s = p)"

definition endswith :: "string \<Rightarrow> string \<Rightarrow> bool" where
  "endswith s p = (length p \<le> length s \<and> drop (length s - length p) s = p)"

definition os_path_join :: "string \<Rightarrow> string \<Rightarrow> string" where
  "os_path_join a b =
     (if startswith b ''/'' then b
      else if a = [] \<or> endswith a ''/'' then a @ b
      else a @ ''/'' @ b)"

definition slice_from :: "'a list \<Rightarrow> int \<Rightarrow> 'a list" where
  "slice_from xs k = (if 0 \<le> k then drop (nat k) xs else drop (nat (int (length xs) + k)) xs)"

definition CACHE_FILE_PREFIX :: string where
  "CACHE_FILE_PREFIX = ''api-cache-''"

text \<open>
  The cache directory as \<open>os.listdir\<close> and \<open>os.path.getmtime\<close> see it: names in listing
  order, each with its modification time (seconds, as the \<open>datetime\<close> made from it; \<open>None\<close>
  when \<open>os.path.getmtime\<close> raises on the name, as on a dangling symbolic link) and with
  whether \<open>os.remove\<close> on it fails.
\<close>

record dir_entry =
  entry_name :: string
  entry_mtime :: "rat option"
  entry_locked :: bool

text \<open>
  A number read from \<open>settings.json\<close>: an \<open>int\<close> (or \<open>bool\<close>), a \<open>float\<close>, or a value of
  another type (a string, \<open>None\<close>, a list, an object), on which arithmetic or comparison
  with a number raises TypeError.
\<close>

datatype setting_value = IntValue int | FloatValue rat | OtherValue

fun setting_number :: "setting_value \<Rightarrow> rat option" where
  "setting_number (IntValue k) = Some (of_int k)"
| "setting_number (FloatValue q) = Some q"
| "setting_number OtherValue = None"

text \<open>
  The settings the function reads, after \<open>self.settings.get\<close> has applied its defaults;
  \<open>get_cache_dir\<close> is a string and \<open>get_offline_mode\<close> is the truth value of the setting.
\<close>

record fetch_settings =
  get_cache_dir :: string
  get_cache_max_age_hours :: setting_value
  get_offline_mode :: bool
  get_keep_old_cache :: setting_value

text \<open>
  What the one request does: \<open>urlopen\<close> or the reading raises URLError (HTTPError is a
  subclass), something else is raised, the body is not JSON (\<open>json.loads\<close> raises), or the
  body parses. \<open>net_stamp\<close> is \<open>datetime.now().strftime('%Y%m%d_%H%M%S')\<close> at the time the
  cache file is named, \<open>net_write_ok\<close> tells whether writing that file succeeds.
\<close>

datatype response = RaisesURLError | RaisesOther | NotJSON | Body pyval

record network =
  net_response :: response
  net_stamp :: string
  net_write_ok :: bool

text \<open>
  The state of the \<open>JavaInstaller\<close> object that the function reads and writes, with the
  cache directory (whether \<open>os.listdir\<close> succeeds on it, and its contents) and a counter of
  the calls of \<open>urlopen\<close>. The constructor creates the directory of the settings it
  loads; the settings menu can store another path, which nothing creates.
\<close>

record installer =
  cache_dir_listable :: bool
  listing :: "dir_entry list"
  cache_file :: "string option"
  api_data :: "pyval option"
  requests :: nat

definition getmtime :: "dir_entry list \<Rightarrow> string \<Rightarrow> py_exception + rat" where
  "getmtime entries f =
     (case find (\<lambda>e. entry_name e = f) entries of
        None \<Rightarrow> Inl OSError
      | Some e \<Rightarrow> (case entry_mtime e of None \<Rightarrow> Inl OSError | Some t \<Rightarrow> Inr t))"

text \<open>\<open>os.remove\<close> inside \<open>try: ... except: pass\<close>: a file that cannot be removed stays.\<close>

definition os_remove :: "dir_entry list \<Rightarrow> string \<Rightarrow> dir_entry list" where
  "os_remove entries f = filter (\<lambda>e. entry_name e \<noteq> f \<or> entry_locked e) entries"

text \<open>\<open>len(json_data)\<close> raises TypeError on a number and on \<open>None\<close>.\<close>

fun has_len :: "pyval \<Rightarrow> bool" where
  "has_len PNone = False"
| "has_len (PNum q) = False"
| "has_len v = True"

definition cache_names :: "dir_entry list \<Rightarrow> string list" where
  "cache_names entries =
     filter (\<lambda>f. startswith f CACHE_FILE_PREFIX \<and> endswith f ''.json'') (map entry_name entries)"

text \<open>
  The fallback written twice in the source, for offline mode and in \<open>except URLError\<close>:
  with a cache file, point \<open>self.cache_file\<close> at the first of the sorted names and return
  \<open>True\<close>; without one, return \<open>False\<close>.
\<close>

definition use_latest :: "fetch_settings \<Rightarrow> string list \<Rightarrow> installer \<Rightarrow> bool \<times> installer" where
  "use_latest S cache_files I =
     (if cache_files \<noteq> []
      then (True, I\<lparr>cache_file := Some (os_path_join (get_cache_dir S) (hd cache_files))\<rparr>)
      else (False, I))"

text \<open>
  The removal of old cache files, \<open>if len(cache_files) > keep_old: for old_cache in
  cache_files[keep_old:]\<close>. The comparison raises TypeError on a \<open>keep_old\<close> that is not a
  number, the slice on one that is a \<open>float\<close>.
\<close>

definition remove_old ::
  "setting_value \<Rightarrow> string list \<Rightarrow> dir_entry list \<Rightarrow> py_exception + dir_entry list" where
  "remove_old keep_old cache_files entries =
     (case keep_old of
        OtherValue \<Rightarrow> Inl TypeError
      | FloatValue q \<Rightarrow> if of_nat (length cache_files) > q then Inl TypeError else Inr entries
      | IntValue k \<Rightarrow>
          if int (length cache_files) > k
          then Inr (foldl os_remove entries (slice_from cache_files k))
          else Inr entries)"

text \<open>
  The \<open>try\<close> block with its two handlers. A failure after \<open>self.cache_file\<close> was set
  (writing the file, \<open>len(json_data)\<close>, the removal of old files) ends in
  \<open>except Exception\<close> and returns \<open>False\<close>.
\<close>

definition download_api ::
  "fetch_settings \<Rightarrow> network \<Rightarrow> rat \<Rightarrow> string list \<Rightarrow> installer \<Rightarrow> bool \<times> installer" where
  "download_api S N now cache_files I =
     (let I1 = I\<lparr>requests := requests I + 1\<rparr> in
      case net_response N of
        RaisesURLError \<Rightarrow> use_latest S cache_files I1
      | RaisesOther \<Rightarrow> (False, I1)
      | NotJSON \<Rightarrow> (False, I1)
      | Body json_data \<Rightarrow>
          (let cache_filename = CACHE_FILE_PREFIX @ net_stamp N @ ''.json'';
               I2 = I1\<lparr>cache_file := Some (os_path_join (get_cache_dir S) cache_filename)\<rparr>
           in if \<not> net_write_ok N then (False, I2)
              else (let I3 = I2\<lparr>listing :=
                             filter (\<lambda>e. entry_name e \<noteq> cache_filename) (listing I2)
                               @ [\<lparr>entry_name = cache_filename, entry_mtime = Some now,
                                    entry_locked = False\<rparr>],
                          api_data := Some json_data\<rparr>
                    in if \<not> has_len json_data then (False, I3)
                       else (case remove_old (get_keep_old_cache S) cache_files (listing I3) of
                               Inl e \<Rightarrow> (False, I3)
                             | Inr entries \<Rightarrow> (True, I3\<lparr>listing := entries\<rparr>)))))"

text \<open>
  \<open>fetch_api_data\<close>. \<open>cache_files.sort(reverse=True)\<close> leaves the names in descending order.
  \<open>now\<close> is \<open>datetime.now()\<close> in seconds. Logging only prints and appends to the log file.
  Three steps stand before the offline branch and outside the \<open>try\<close> block, so that their
  exceptions leave the function: \<open>os.listdir(cache_dir)\<close> (an OSError such as
  FileNotFoundError), \<open>os.path.getmtime(latest_cache)\<close>, and, when \<open>force\<close> is not set, the
  comparison with \<open>cache_max_age * 3600\<close> (TypeError when the setting is not a number).
\<close>

definition fetch_api_data ::
  "fetch_settings \<Rightarrow> network \<Rightarrow> rat \<Rightarrow> bool \<Rightarrow> installer \<Rightarrow> py_exception + bool \<times> installer" where
  "fetch_api_data S N now force I =
     (if \<not> cache_dir_listable I then Inl OSError
      else
       (let cache_files = rev (sort (cache_names (listing I))) in
        case (if cache_files \<noteq> []
              then (case getmtime (listing I) (hd cache_files) of
                      Inl e \<Rightarrow> Inl e
                    | Inr cache_time \<Rightarrow>
                        if force then Inr False
                        else (case setting_number (get_cache_max_age_hours S) of
                                None \<Rightarrow> Inl TypeError
                              | Some cache_max_age \<Rightarrow>
                                  Inr (now - cache_time < cache_max_age * 3600)))
              else Inr False) of
          Inl e \<Rightarrow> Inl e
        | Inr fresh \<Rightarrow>
            if fresh
            then Inr (True,
                   I\<lparr>cache_file := Some (os_path_join (get_cache_dir S) (hd cache_files))\<rparr>)
            else if get_offline_mode S then Inr (use_latest S cache_files I)
            else Inr (download_api S N now cache_files I)))"


text \<open>The specification side of claim C3: the name-descending first of the cache files.\<close>

definition newest_cache :: "dir_entry list \<Rightarrow> string" where
  "newest_cache entries = Max (set (cache_names entries))"

section \<open>Installer: \<open>download_file\<close>\<close>

text \<open>
  \<open>str.lower\<close> on code points below 256: the letters A to Z and the accented capitals
  U+00C0 to U+00DE, the multiplication sign U+00D7 apart, move up by 32.
\<close>

definition lower_char :: "char \<Rightarrow> char" where
  "lower_char c =
     (let n = (of_char c :: nat) in
      if (65 \<le> n \<and> n \<le> 90) \<or> (192 \<le> n \<and> n \<le> 222 \<and> n \<noteq> 215) then char_of (n + 32) else c)"

definition py_lower :: "string \<Rightarrow> string" where
  "py_lower s = map lower_char s"

text \<open>
  The three settings the function tests, after \<open>self.settings.get\<close> has applied its
  defaults and \<open>if\<close> has taken their truth value.
\<close>

record download_settings =
  get_download_resume :: bool
  get_check_sha1 :: bool
  get_show_progress :: bool

text \<open>
  What the request does. Either an exception is raised before the file is opened for
  writing (\<open>urlopen\<close> fails, the Content-Length header is not a number), or the response
  has a Content-Length and answers the successive calls of \<open>response.read(8192)\<close> with the
  listed byte strings; once the list is used up the next call returns the empty string
  (\<open>True\<close>) or raises (\<open>False\<close>).

  The environment also tells whether \<open>os.makedirs\<close> succeeds, whether a file already at the
  download path can be opened for reading, whether the file can be opened for writing and
  written, and the value of the global \<open>HAS_COLOR\<close>. Printing, and removing a file the
  process has just written, are taken to succeed.
\<close>

datatype transfer = FailsBeforeWrite | Transfer int "string list" bool

record download_env =
  env_makedirs_ok :: bool
  env_readable :: bool
  env_transfer :: transfer
  env_disk_ok :: bool
  env_has_color :: bool

text \<open>
  The result: the value returned (\<open>None\<close> or the download path), the contents of the file
  at the download path afterwards (\<open>None\<close> when there is no file), the number of requests
  made, and the exception that left the function, if one did.
\<close>

record download_result =
  returned_path :: "string option"
  file_after :: "string option"
  downloads :: nat
  raised :: "py_exception option"

text \<open>
  The loop \<open>while True: chunk = response.read(8192)\<close>. It stops at the first empty read,
  appends every other chunk to the file, and binds the local variable \<open>show_progress\<close> in
  each iteration (\<open>None\<close>: still unbound). It yields the bytes written, \<open>show_progress\<close>, and
  whether the loop ended without an exception.
\<close>

fun read_loop ::
  "download_settings \<Rightarrow> string list \<Rightarrow> bool \<Rightarrow> string \<Rightarrow> bool option \<Rightarrow> string \<times> bool option \<times> bool" where
  "read_loop S [] ends_ok written show_progress = (written, show_progress, ends_ok)"
| "read_loop S (chunk # rest) ends_ok written show_progress =
     (if chunk = [] then (written, show_progress, True)
      else read_loop S rest ends_ok (written @ chunk) (Some (get_show_progress S)))"

text \<open>
  The \<open>try\<close> block. Every exception ends in the handler, which removes the file at the
  download path when there is one and returns \<open>None\<close>: a failing request or write, the
  \<open>UnboundLocalError\<close> of \<open>file_size > 0 and HAS_COLOR and show_progress\<close> after a loop
  without an iteration, and the \<open>TypeError\<close> of \<open>human_size(expected_size)\<close> when a size
  that differs is not a number. A number that differs from the size is only logged.
  \<open>sha1\<close> is \<open>hashlib.sha1(...).hexdigest()\<close>, a parameter.
\<close>

definition fresh_download ::
  "(string \<Rightarrow> string) \<Rightarrow> download_settings \<Rightarrow> string \<Rightarrow> pyval \<Rightarrow> string option \<Rightarrow> download_env
     \<Rightarrow> download_result" where
  "fresh_download sha1 S download_path expected_size expected_sha1 E =
     (let failed = \<lparr>returned_path = None, file_after = None, downloads = 1, raised = None\<rparr>
      in case env_transfer E of
           FailsBeforeWrite \<Rightarrow> failed
         | Transfer file_size reads ends_ok \<Rightarrow>
             if \<not> env_disk_ok E then failed
             else (case read_loop S reads ends_ok [] None of
                     (content, show_progress, finished) \<Rightarrow>
                       if \<not> finished then failed
                       else if file_size > 0 \<and> env_has_color E \<and> show_progress = None
                       then failed
                       else if truthy expected_size
                               \<and> PNum (of_nat (length content)) \<noteq> expected_size
                               \<and> \<not> is_number expected_size
                       then failed
                       else (let done = \<lparr>returned_path = Some download_path,
                                          file_after = Some content, downloads = 1,
                                          raised = None\<rparr>
                             in case expected_sha1 of
                                  None \<Rightarrow> done
                                | Some e \<Rightarrow>
                                    if e \<noteq> [] \<and> get_check_sha1 S
                                    then (if py_lower (sha1 content) \<noteq> py_lower e
                                          then failed else done)
                                    else done)))"

text \<open>
  \<open>download_file\<close>. \<open>expected_sha1\<close> is \<open>None\<close> or a string; \<open>expected_size\<close> is any JSON
  value, as \<open>release.get('size')\<close> yields it; \<open>existing\<close> is the content of the file at the
  download path before the call. \<open>os.makedirs\<close> and the reading of an existing file stand
  outside the \<open>try\<close> block: their exceptions leave the function.
\<close>

definition download_file ::
  "(string \<Rightarrow> string) \<Rightarrow> download_settings \<Rightarrow> string \<Rightarrow> string \<Rightarrow> pyval \<Rightarrow> string option
     \<Rightarrow> download_env \<Rightarrow> string option \<Rightarrow> download_result" where
  "download_file sha1 S cache_directory filename expected_size expected_sha1 E existing =
     (let download_path = os_path_join (os_path_join cache_directory ''downloads'') filename;
          download = fresh_download sha1 S download_path expected_size expected_sha1 E
      in if \<not> env_makedirs_ok E
         then \<lparr>returned_path = None, file_after = existing, downloads = 0,
                raised = Some OSError\<rparr>
         else
           (case existing of
              None \<Rightarrow> download
            | Some content \<Rightarrow>
                if \<not> get_download_resume S then download
                else if truthy expected_size \<and> PNum (of_nat (length content)) = expected_size
                then (let reuse = \<lparr>returned_path = Some download_path,
                                    file_after = Some content, downloads = 0, raised = None\<rparr>
                      in case expected_sha1 of
                           None \<Rightarrow> reuse
                         | Some e \<Rightarrow>
                             if e \<noteq> [] \<and> get_check_sha1 S
                             then (if \<not> env_readable E
                                   then \<lparr>returned_path = None, file_after = existing,
                                          downloads = 0, raised = Some PermissionError\<rparr>
                                   else if py_lower (sha1 content) = py_lower e
                                   then reuse
                                   else download)
                             else reuse)
                else download))"

section \<open>Properties of the selection menus\<close>

lemma py_index_in_range:
  "0 \<le> i \<Longrightarrow> i < int (length xs) \<Longrightarrow> py_index xs i = Inr (xs ! nat i)"
  by (simp add: py_index_def)

lemma py_int_error: "py_int s = Inl e \<Longrightarrow> e = ValueError"
  by (auto simp: py_int_def split: if_splits)

lemma select_option_loop_safe:
  "(\<forall>x. fst (select_option_loop options allow_back console) = Picked x \<longrightarrow> x \<in> set options)
   \<and> fst (select_option_loop options allow_back console) \<noteq> Errored IndexError
   \<and> fst (select_option_loop options allow_back console) \<noteq> NoOptions"
proof (induction options allow_back console rule: select_option_loop.induct)
  case (1 options allow_back)
  show ?case by simp
next
  case (2 options allow_back rest)
  show ?case by simp
next
  case (3 options allow_back choice rest)
  show ?case
  proof (cases "choice = ''0'' \<and> allow_back")
    case True
    then show ?thesis by simp
  next
    case nb: False
    show ?thesis
    proof (cases "isdigit choice")
      case False
      with nb 3 show ?thesis by simp
    next
      case dig: True
      show ?thesis
      proof (cases "py_int choice")
        case (Inl e)
        with nb dig py_int_error [OF Inl] show ?thesis by simp
      next
        case (Inr n)
        show ?thesis
        proof (cases "0 \<le> n - 1 \<and> n - 1 < int (length options)")
          case True
          then have "py_index options (n - 1) = Inr (options ! nat (n - 1))"
            by (simp add: py_index_in_range)
          moreover from True have "options ! nat (n - 1) \<in> set options"
            by (simp add: nat_less_iff)
          ultimately show ?thesis using nb dig Inr True by (simp add: Let_def)
        next
          case False
          with nb dig Inr 3 show ?thesis by (auto simp: Let_def)
        qed
      qed
    qed
  qed
qed

lemma select_release_loop_safe:
  "(\<forall>x. fst (select_release_loop releases console) = Picked x \<longrightarrow> x \<in> set releases)
   \<and> fst (select_release_loop releases console) \<noteq> Errored IndexError
   \<and> fst (select_release_loop releases console) \<noteq> NoOptions"
proof (induction releases console rule: select_release_loop.induct)
  case (1 releases)
  show ?case by simp
next
  case (2 releases rest)
  show ?case by simp
next
  case (3 releases choice rest)
  show ?case
  proof (cases "choice = ''0''")
    case True
    then show ?thesis by simp
  next
    case nb: False
    show ?thesis
    proof (cases "isdigit choice")
      case False
      with nb 3 show ?thesis by simp
    next
      case dig: True
      show ?thesis
      proof (cases "py_int choice")
        case (Inl e)
        with nb dig py_int_error [OF Inl] show ?thesis by simp
      next
        case (Inr n)
        show ?thesis
        proof (cases "0 \<le> n - 1 \<and> n - 1 < int (length releases)")
          case True
          then have "py_index releases (n - 1) = Inr (releases ! nat (n - 1))"
            by (simp add: py_index_in_range)
          moreover from True have "releases ! nat (n - 1) \<in> set releases"
            by (simp add: nat_less_iff)
          ultimately show ?thesis using nb dig Inr True by (simp add: Let_def)
        next
          case False
          with nb dig Inr 3 show ?thesis by (auto simp: Let_def)
        qed
      qed
    qed
  qed
qed

lemma returned_cases: "returned r = Some x \<longleftrightarrow> r = Picked x"
  by (cases r) auto

text \<open>
  Claim C9. For every options list and every console, \<open>select_option\<close> and
  \<open>select_release\<close> return \<open>None\<close> or an element of the list they were given; the
  indexing \<open>options[idx]\<close> never raises IndexError; and on an empty list both return
  \<open>None\<close> at once, without reading the console.
\<close>

theorem select_returns_member_or_none:
  "(returned (fst (select_option options allow_back console)) = None
      \<or> (\<exists>x \<in> set options. returned (fst (select_option options allow_back console)) = Some x))
   \<and> fst (select_option options allow_back console) \<noteq> Errored IndexError
   \<and> (returned (fst (select_release options console)) = None
      \<or> (\<exists>x \<in> set options. returned (fst (select_release options console)) = Some x))
   \<and> fst (select_release options console) \<noteq> Errored IndexError
   \<and> select_option [] allow_back console = (NoOptions, console)
   \<and> select_release [] console = (NoOptions, console)"
proof -
  have a: "returned (fst (select_option options allow_back console)) = None
      \<or> (\<exists>x \<in> set options. returned (fst (select_option options allow_back console)) = Some x)"
  proof (cases "returned (fst (select_option options allow_back console))")
    case None
    then show ?thesis by simp
  next
    case (Some x)
    then have p: "fst (select_option options allow_back console) = Picked x"
      by (simp add: returned_cases)
    then have "options \<noteq> []" by (auto simp: select_option_def split: if_splits)
    with p have "x \<in> set options"
      using select_option_loop_safe [of options allow_back console]
      by (simp add: select_option_def)
    with Some show ?thesis by simp
  qed
  have b: "fst (select_option options allow_back console) \<noteq> Errored IndexError"
    using select_option_loop_safe [of options allow_back console]
    by (simp add: select_option_def)
  have c: "returned (fst (select_release options console)) = None
      \<or> (\<exists>x \<in> set options. returned (fst (select_release options console)) = Some x)"
  proof (cases "returned (fst (select_release options console))")
    case None
    then show ?thesis by simp
  next
    case (Some x)
    then have p: "fst (select_release options console) = Picked x"
      by (simp add: returned_cases)
    then have "options \<noteq> []" by (auto simp: select_release_def split: if_splits)
    with p have "x \<in> set options"
      using select_release_loop_safe [of options console]
      by (simp add: select_release_def)
    with Some show ?thesis by simp
  qed
  have d: "fst (select_release options console) \<noteq> Errored IndexError"
    using select_release_loop_safe [of options console]
    by (simp add: select_release_def)
  have e: "select_option [] allow_back console = (NoOptions, console)"
    by (simp add: select_option_def)
  have f: "select_release [] console = (NoOptions, console)"
    by (simp add: select_release_def)
  from a b c d e f show ?thesis by blast
qed

theorem select_returns_member_or_none_witness:
  "returned (fst (select_option [''linux'', ''windows''] True
       [Typed ''x'', Typed ''7'', Typed ''2''])) = Some ''windows''
   \<and> (\<exists>x \<in> set [''linux'', ''windows''].
         returned (fst (select_option [''linux'', ''windows''] True
           [Typed ''x'', Typed ''7'', Typed ''2''])) = Some x)
   \<and> returned (fst (select_release [''linux'', ''windows''] [Typed ''3'', CtrlC])) = None"
  using select_returns_member_or_none
    [of "[''linux'', ''windows'']" True "[Typed ''x'', Typed ''7'', Typed ''2'']"]
  by (simp add: select_option_def select_release_def isdigit_def digit_char_def
      ascii_decimal_def py_int_def py_index_def)

section \<open>Properties of \<open>get_unique_values\<close>\<close>

lemma filters_match_iff:
  "filters_match fs (PDict d) = Inr (\<forall>(key, value) \<in> set fs. dict_get d key = value)"
  by (induction fs) auto

lemma skip_iff:
  "(case filters of None \<Rightarrow> Inr True
    | Some fs \<Rightarrow> if fs = [] then Inr True else filters_match fs (PDict d))
   = Inr (\<forall>(key, value) \<in> set (filter_pairs filters). dict_get d key = value)"
  by (cases filters) (auto simp: filter_pairs_def filters_match_iff)

lemma field_values_Nil: "field_values [] field filters = {}"
  by (simp add: field_values_def)

lemma field_values_Cons:
  "field_values (item # rest) field filters =
     (if (\<forall>(key, value) \<in> set (filter_pairs filters). dict_get item key = value)
         \<and> truthy (dict_get item field)
      then insert (dict_get item field) (field_values rest field filters)
      else field_values rest field filters)"
  by (auto simp: field_values_def)

lemma collect_values_ok:
  "\<forall>v \<in> field_values items field filters. hashable v \<Longrightarrow> distinct acc \<Longrightarrow>
   \<exists>vs. collect_values field filters (map PDict items) acc = Inr vs \<and> distinct vs
        \<and> set vs = set acc \<union> field_values items field filters"
proof (induction items arbitrary: acc)
  case Nil
  then show ?case by (simp add: field_values_Nil)
next
  case (Cons item rest)
  show ?case
  proof (cases "(\<forall>(key, value) \<in> set (filter_pairs filters). dict_get item key = value)
         \<and> truthy (dict_get item field)")
    case True
    then have fv: "field_values (item # rest) field filters
        = insert (dict_get item field) (field_values rest field filters)"
      by (simp add: field_values_Cons)
    with Cons.prems have h: "hashable (dict_get item field)"
      and hr: "\<forall>v \<in> field_values rest field filters. hashable v" by auto
    define acc' where "acc' = (if dict_get item field \<in> set acc then acc
        else acc @ [dict_get item field])"
    have d: "distinct acc'" using Cons.prems(2) by (simp add: acc'_def)
    have s: "set acc' = insert (dict_get item field) (set acc)"
      by (auto simp: acc'_def)
    have step: "collect_values field filters (map PDict (item # rest)) acc
        = collect_values field filters (map PDict rest) acc'"
      using True h by (simp add: skip_iff set_add_def acc'_def)
    from Cons.IH [OF hr d] obtain vs where
      "collect_values field filters (map PDict rest) acc' = Inr vs" "distinct vs"
      "set vs = set acc' \<union> field_values rest field filters" by blast
    with step fv s show ?thesis by auto
  next
    case False
    then have fv: "field_values (item # rest) field filters = field_values rest field filters"
      by (metis field_values_Cons)
    have step: "collect_values field filters (map PDict (item # rest)) acc
        = collect_values field filters (map PDict rest) acc"
      using False by (auto simp: skip_iff)
    from Cons.prems fv have hr: "\<forall>v \<in> field_values rest field filters. hashable v" by simp
    from Cons.IH [OF hr Cons.prems(2)] step fv show ?thesis by simp
  qed
qed

lemma finite_field_values: "finite (field_values items field filters)"
  by (induction items) (simp_all add: field_values_Nil field_values_Cons)

lemma sorted_values_num:
  assumes "distinct vs" "\<forall>v \<in> set vs. is_number v"
  shows "sorted_values vs = Inr (map PNum (sorted_list_of_set {q. PNum q \<in> set vs}))"
proof -
  have im: "{q. PNum q \<in> set vs} = set (map num_of vs)"
  proof (rule set_eqI)
    fix q
    show "q \<in> {q. PNum q \<in> set vs} \<longleftrightarrow> q \<in> set (map num_of vs)"
    proof
      assume "q \<in> {q. PNum q \<in> set vs}"
      then have "PNum q \<in> set vs" by simp
      then have "num_of (PNum q) \<in> num_of ` set vs" by (rule imageI)
      then show "q \<in> set (map num_of vs)" by simp
    next
      assume "q \<in> set (map num_of vs)"
      then obtain v where v: "v \<in> set vs" "q = num_of v" by auto
      with assms(2) have "is_number v" by simp
      then have "v = PNum (num_of v)" by (cases v) simp_all
      with v show "q \<in> {q. PNum q \<in> set vs}" by simp
    qed
  qed
  have inj: "inj_on num_of (set vs)"
  proof (rule inj_onI)
    fix a b assume "a \<in> set vs" "b \<in> set vs" "num_of a = num_of b"
    with assms(2) have "is_number a" "is_number b" by auto
    with \<open>num_of a = num_of b\<close> show "a = b" by (cases a; cases b) auto
  qed
  have dm: "distinct (map num_of vs)" using assms(1) inj by (simp add: distinct_map)
  have "sorted_list_of_set (set (map num_of vs)) = sort (remdups (map num_of vs))"
    by (rule sorted_list_of_set_sort_remdups)
  with dm have srt: "sort (map num_of vs) = sorted_list_of_set {q. PNum q \<in> set vs}"
    by (simp only: im distinct_remdups_id)
  have all: "list_all is_number vs" using assms(2) by (simp add: list_all_iff)
  show ?thesis
  proof (cases "length vs \<le> 1")
    case False
    with all srt show ?thesis by (simp add: sorted_values_def)
  next
    case True
    then consider "vs = []" | v where "vs = [v]"
      by (cases vs) (auto simp: length_Suc_conv)
    then show ?thesis
    proof cases
      case 1
      then show ?thesis by (simp add: sorted_values_def)
    next
      case 2
      with assms(2) obtain q where "v = PNum q" by (cases v) auto
      with 2 srt show ?thesis by (simp add: sorted_values_def)
    qed
  qed
qed

lemma sorted_values_str:
  assumes "distinct vs" "\<forall>v \<in> set vs. is_string v"
  shows "sorted_values vs = Inr (map PStr (sorted_list_of_set {q. PStr q \<in> set vs}))"
proof -
  have im: "{q. PStr q \<in> set vs} = set (map str_of vs)"
  proof (rule set_eqI)
    fix q
    show "q \<in> {q. PStr q \<in> set vs} \<longleftrightarrow> q \<in> set (map str_of vs)"
    proof
      assume "q \<in> {q. PStr q \<in> set vs}"
      then have "PStr q \<in> set vs" by simp
      then have "str_of (PStr q) \<in> str_of ` set vs" by (rule imageI)
      then show "q \<in> set (map str_of vs)" by simp
    next
      assume "q \<in> set (map str_of vs)"
      then obtain v where v: "v \<in> set vs" "q = str_of v" by auto
      with assms(2) have "is_string v" by simp
      then have "v = PStr (str_of v)" by (cases v) simp_all
      with v show "q \<in> {q. PStr q \<in> set vs}" by simp
    qed
  qed
  have inj: "inj_on str_of (set vs)"
  proof (rule inj_onI)
    fix a b assume "a \<in> set vs" "b \<in> set vs" "str_of a = str_of b"
    with assms(2) have "is_string a" "is_string b" by auto
    with \<open>str_of a = str_of b\<close> show "a = b" by (cases a; cases b) auto
  qed
  have dm: "distinct (map str_of vs)" using assms(1) inj by (simp add: distinct_map)
  have "sorted_list_of_set (set (map str_of vs)) = sort (remdups (map str_of vs))"
    by (rule sorted_list_of_set_sort_remdups)
  with dm have srt: "sort (map str_of vs) = sorted_list_of_set {q. PStr q \<in> set vs}"
    by (simp only: im distinct_remdups_id)
  have all: "list_all is_string vs" using assms(2) by (simp add: list_all_iff)
  show ?thesis
  proof (cases "length vs \<le> 1")
    case False
    then obtain v where "v \<in> set vs" by (cases vs) auto
    with assms(2) have "is_string v" by simp
    then have "\<not> is_number v" by (cases v) simp_all
    with \<open>v \<in> set vs\<close> have "\<not> list_all is_number vs" by (auto simp: list_all_iff)
    with False all srt show ?thesis by (simp add: sorted_values_def)
  next
    case True
    then consider "vs = []" | v where "vs = [v]"
      by (cases vs) (auto simp: length_Suc_conv)
    then show ?thesis
    proof cases
      case 1
      then show ?thesis by (simp add: sorted_values_def)
    next
      case 2
      with assms(2) obtain q where "v = PStr q" by (cases v) auto
      with 2 srt show ?thesis by (simp add: sorted_values_def)
    qed
  qed
qed


text \<open>
  Claim C6, as amended. For every catalog that is a list of objects, every field name and
  every filter mapping such that the truthy values of the field among the entries matching
  every filter pair are all numbers or all strings, \<open>get_unique_values\<close> returns the sorted
  list of these distinct values; entries failing a filter contribute nothing.
\<close>

theorem get_unique_values_sorted_distinct:
  assumes "(\<forall>v \<in> field_values items field filters. is_number v)
         \<or> (\<forall>v \<in> field_values items field filters. is_string v)"
  shows "get_unique_values (PList (map PDict items)) field filters
         = Inr (sorted_distinct (field_values items field filters))"
proof -
  have hash: "\<forall>v \<in> field_values items field filters. hashable v"
  proof
    fix v assume "v \<in> field_values items field filters"
    with assms have "is_number v \<or> is_string v" by blast
    then show "hashable v" by (cases v) simp_all
  qed
  from collect_values_ok [OF hash, of "[]"] obtain vs where
    vs: "collect_values field filters (map PDict items) [] = Inr vs" "distinct vs"
    "set vs = field_values items field filters" by auto
  have res: "sorted_values vs = Inr (sorted_distinct (field_values items field filters))"
  proof (cases "\<forall>v \<in> field_values items field filters. is_number v")
    case True
    with vs sorted_values_num [of vs] show ?thesis by (simp add: sorted_distinct_def)
  next
    case False
    with assms have "\<forall>v \<in> field_values items field filters. is_string v" by blast
    with vs sorted_values_str [of vs]
    have "sorted_values vs
        = Inr (map PStr (sorted_list_of_set {s. PStr s \<in> field_values items field filters}))"
      by simp
    moreover have "sorted_distinct (field_values items field filters)
        = map PStr (sorted_list_of_set {s. PStr s \<in> field_values items field filters})"
      unfolding sorted_distinct_def by (rule if_not_P [OF False])
    ultimately show ?thesis by simp
  qed
  show ?thesis
  proof (cases "items = []")
    case True
    then show ?thesis
      by (simp add: get_unique_values_def sorted_distinct_def field_values_Nil)
  next
    case False
    with vs res show ?thesis by (simp add: get_unique_values_def)
  qed
qed

theorem get_unique_values_sorted_distinct_witness:
  "field_values
        [fmap_of_list [(''os'', PStr ''linux''), (''featureVersion'', PNum 17)],
         fmap_of_list [(''os'', PStr ''windows''), (''featureVersion'', PNum 8)],
         fmap_of_list [(''os'', PStr ''linux''), (''featureVersion'', PNum 11)],
         fmap_of_list [(''os'', PStr ''linux''), (''featureVersion'', PNum 17)]]
        ''featureVersion'' (Some [(''os'', PStr ''linux'')]) = {PNum 11, PNum 17}
   \<and> get_unique_values (PList (map PDict
        [fmap_of_list [(''os'', PStr ''linux''), (''featureVersion'', PNum 17)],
         fmap_of_list [(''os'', PStr ''windows''), (''featureVersion'', PNum 8)],
         fmap_of_list [(''os'', PStr ''linux''), (''featureVersion'', PNum 11)],
         fmap_of_list [(''os'', PStr ''linux''), (''featureVersion'', PNum 17)]]))
        ''featureVersion'' (Some [(''os'', PStr ''linux'')]) = Inr [PNum 11, PNum 17]
   \<and> sorted_distinct (field_values
        [fmap_of_list [(''os'', PStr ''linux''), (''featureVersion'', PNum 17)],
         fmap_of_list [(''os'', PStr ''windows''), (''featureVersion'', PNum 8)],
         fmap_of_list [(''os'', PStr ''linux''), (''featureVersion'', PNum 11)],
         fmap_of_list [(''os'', PStr ''linux''), (''featureVersion'', PNum 17)]]
        ''featureVersion'' (Some [(''os'', PStr ''linux'')])) = [PNum 11, PNum 17]"
proof -
  let ?items = "[fmap_of_list [(''os'', PStr ''linux''), (''featureVersion'', PNum 17)],
         fmap_of_list [(''os'', PStr ''windows''), (''featureVersion'', PNum 8)],
         fmap_of_list [(''os'', PStr ''linux''), (''featureVersion'', PNum 11)],
         fmap_of_list [(''os'', PStr ''linux''), (''featureVersion'', PNum 17)]]"
  let ?filters = "Some [(''os'', PStr ''linux'')]"
  have v: "field_values ?items ''featureVersion'' ?filters = {PNum 11, PNum 17}"
    by (auto simp: field_values_Cons field_values_Nil filter_pairs_def dict_get_def
        fmlookup_of_list)
  then have h: "\<forall>v \<in> field_values ?items ''featureVersion'' ?filters. is_number v"
    by simp
  have r: "get_unique_values (PList (map PDict ?items)) ''featureVersion'' ?filters
      = Inr [PNum 11, PNum 17]"
    by (simp add: get_unique_values_def dict_get_def set_add_def fmlookup_of_list
        sorted_values_def)
  from get_unique_values_sorted_distinct [OF disjI1 [OF h]] r
  have "sorted_distinct (field_values ?items ''featureVersion'' ?filters)
      = [PNum 11, PNum 17]" by simp
  with v r show ?thesis by blast
qed

text \<open>
  The claim as stated, for every catalog and every field, fails in three ways, none of
  which returns a list: a matching entry holds a non-empty list under the field
  (\<open>values.add\<close> raises TypeError); the field holds a number in one matching entry and a
  string in another (\<open>sorted\<close> raises TypeError); the loaded JSON value is a list of strings
  (\<open>item.get\<close> raises AttributeError).
\<close>

theorem get_unique_values_counterexample:
  "get_unique_values
     (PList [PDict (fmap_of_list [(''os'', PStr ''linux''), (''components'', PList [PStr ''jdk''])])])
     ''components'' None = Inl TypeError
   \<and> get_unique_values
     (PList [PDict (fmap_of_list [(''os'', PStr ''linux''), (''version'', PNum 17)]),
             PDict (fmap_of_list [(''os'', PStr ''linux''), (''version'', PStr ''17.0.1'')])])
     ''version'' None = Inl TypeError
   \<and> get_unique_values (PList [PStr ''linux'', PStr ''windows'']) ''os'' None
     = Inl AttributeError"
  by (simp add: get_unique_values_def dict_get_def set_add_def fmlookup_of_list
      sorted_values_def)

section \<open>Properties of the settings loaders\<close>



section \<open>Properties of the size formatting\<close>

lemma bit_length_le: "bit_length n \<le> k \<longleftrightarrow> n < 2 ^ k"
proof (induction n arbitrary: k rule: bit_length.induct)
  case (1 n)
  show ?case
  proof (cases "n = 0")
    case True
    then show ?thesis by (simp add: bit_length.simps)
  next
    case False
    show ?thesis
    proof (cases k)
      case 0
      with False show ?thesis by (simp add: bit_length.simps [of n])
    next
      case (Suc j)
      have "bit_length n \<le> Suc j \<longleftrightarrow> bit_length (n div 2) \<le> j"
        using False by (simp add: bit_length.simps [of n])
      also have "\<dots> \<longleftrightarrow> n div 2 < 2 ^ j" using 1 [OF False] .
      also have "\<dots> \<longleftrightarrow> n < 2 ^ Suc j" by auto
      finally show ?thesis using Suc by simp
    qed
  qed
qed

lemma round53_exact: "n < 2 ^ 53 \<Longrightarrow> round53 n = n"
  by (simp add: round53_def bit_length_le)

lemma least_unit_index_eq:
  assumes "k \<le> cap" "\<forall>j < k. (1024 :: rat) \<le> of_nat n / 1024 ^ j"
    and "k < cap \<longrightarrow> of_nat n / 1024 ^ k < (1024 :: rat)"
  shows "least_unit_index cap n = k"
  unfolding least_unit_index_def
proof (rule Least_equality)
  from assms(1,3) show "k = cap \<or> of_nat n / 1024 ^ k < (1024 :: rat)" by auto
next
  fix j assume j: "j = cap \<or> of_nat n / 1024 ^ j < (1024 :: rat)"
  show "k \<le> j"
  proof (rule ccontr)
    assume "\<not> k \<le> j"
    then have "j < k" by simp
    with assms(1) have "j \<noteq> cap" by simp
    with j have "of_nat n / 1024 ^ j < (1024 :: rat)" by simp
    with assms(2) \<open>j < k\<close> show False by force
  qed
qed


lemma small_double: "n < 2 ^ 53 \<Longrightarrow> round53 n < 2 ^ 1024 \<and> round53 n < 2 ^ 1034"
proof -
  assume a: "n < 2 ^ 53"
  have "(2::nat) ^ 53 \<le> 2 ^ 1024" "(2::nat) ^ 53 \<le> 2 ^ 1034"
    by (rule power_increasing; simp)+
  with a show ?thesis by (simp add: round53_exact)
qed

lemma format_size_units:
  assumes "0 < n" "n < 2 ^ 53"
  shows "format_size n =
     Inr (format_fixed 2 (of_nat n / 1024 ^ least_unit_index 3 n) @ '' ''
          @ [''B'', ''KB'', ''MB'', ''GB''] ! least_unit_index 3 n)"
proof -
  note sd = small_double [OF assms(2)] round53_exact [OF assms(2)]
  consider (b) "of_nat n < (1024 :: rat)"
    | (kb) "(1024 :: rat) \<le> of_nat n" "of_nat n / 1024 < (1024 :: rat)"
    | (mb) "(1024 :: rat) \<le> of_nat n" "(1024 :: rat) \<le> of_nat n / 1024"
        "of_nat n / 1024 / 1024 < (1024 :: rat)"
    | (gb) "(1024 :: rat) \<le> of_nat n" "(1024 :: rat) \<le> of_nat n / 1024"
        "(1024 :: rat) \<le> of_nat n / 1024 / 1024"
    by linarith
  then show ?thesis
  proof cases
    case b
    have k: "least_unit_index 3 n = 0"
      by (rule least_unit_index_eq) (use b in simp_all)
    show ?thesis using assms b sd
      by (simp add: k format_size_def format_size_loop.simps)
  next
    case kb
    have k: "least_unit_index 3 n = 1"
      by (rule least_unit_index_eq) (use kb in simp_all)
    show ?thesis using assms kb sd
      by (simp add: k format_size_def format_size_loop.simps)
  next
    case mb
    have k: "least_unit_index 3 n = 2"
      by (rule least_unit_index_eq) (use mb in \<open>simp_all add: less_Suc_eq numeral_2_eq_2\<close>)
    show ?thesis using assms mb sd
      by (simp add: k format_size_def format_size_loop.simps)
  next
    case gb
    have k: "least_unit_index 3 n = 3"
      by (rule least_unit_index_eq)
         (use gb in \<open>simp_all add: less_Suc_eq numeral_3_eq_3\<close>)
    show ?thesis using assms gb sd
      by (simp add: k format_size_def format_size_loop.simps)
  qed
qed


lemma human_size_units:
  assumes "0 < n" "n < 2 ^ 53"
  shows "human_size n =
     Inr (ustr (format_fixed 1 (of_nat n / 1024 ^ least_unit_index 4 n)) @ ustr '' ''
          @ units_ru ! least_unit_index 4 n)"
proof -
  note sd = small_double [OF assms(2)] round53_exact [OF assms(2)]
  consider (b) "of_nat n < (1024 :: rat)"
    | (kb) "(1024 :: rat) \<le> of_nat n" "of_nat n / 1024 < (1024 :: rat)"
    | (mb) "(1024 :: rat) \<le> of_nat n" "(1024 :: rat) \<le> of_nat n / 1024"
        "of_nat n / 1024 / 1024 < (1024 :: rat)"
    | (gb) "(1024 :: rat) \<le> of_nat n" "(1024 :: rat) \<le> of_nat n / 1024"
        "(1024 :: rat) \<le> of_nat n / 1024 / 1024" "of_nat n / 1024 / 1024 / 1024 < (1024 :: rat)"
    | (tb) "(1024 :: rat) \<le> of_nat n" "(1024 :: rat) \<le> of_nat n / 1024"
        "(1024 :: rat) \<le> of_nat n / 1024 / 1024"
        "(1024 :: rat) \<le> of_nat n / 1024 / 1024 / 1024"
    by linarith
  then show ?thesis
  proof cases
    case b
    have k: "least_unit_index 4 n = 0"
      by (rule least_unit_index_eq) (use b in simp_all)
    show ?thesis using assms b sd
      by (simp add: k human_size_def human_size_loop.simps units_ru_def py_index_def)
  next
    case kb
    have k: "least_unit_index 4 n = 1"
      by (rule least_unit_index_eq) (use kb in simp_all)
    show ?thesis using assms kb sd
      by (simp add: k human_size_def human_size_loop.simps units_ru_def py_index_def)
  next
    case mb
    have k: "least_unit_index 4 n = 2"
      by (rule least_unit_index_eq) (use mb in \<open>simp_all add: less_Suc_eq numeral_2_eq_2\<close>)
    show ?thesis using assms mb sd
      by (simp add: k human_size_def human_size_loop.simps units_ru_def py_index_def)
  next
    case gb
    have k: "least_unit_index 4 n = 3"
      by (rule least_unit_index_eq)
         (use gb in \<open>simp_all add: less_Suc_eq numeral_3_eq_3\<close>)
    show ?thesis using assms gb sd
      by (simp add: k human_size_def human_size_loop.simps units_ru_def py_index_def)
  next
    case tb
    have four: "(4::nat) = Suc (Suc (Suc (Suc 0)))" by simp
    have k: "least_unit_index 4 n = 4"
      by (rule least_unit_index_eq)
         (use tb in \<open>simp_all add: less_Suc_eq four\<close>)
    show ?thesis using assms tb sd
      by (simp add: k human_size_def human_size_loop.simps units_ru_def py_index_def)
  qed
qed

lemma floor_rat_numeral: "\<lfloor>numeral a / numeral b :: rat\<rfloor> = numeral a div numeral b"
  by (metis floor_divide_of_int_eq of_int_numeral)

text \<open>
  Claim C7, as amended. \<open>format_size(0)\<close> is \<open>"0 B"\<close> and \<open>human_size(0)\<close> is \<open>"0 "\<close> followed
  by U+0411. For every size \<open>n\<close> with \<open>0 < n < 2^53\<close>, each returns \<open>n / 1024^k\<close> rendered with
  two (\<open>format_size\<close>) or one (\<open>human_size\<close>) decimal places, a space and the unit at index
  \<open>k\<close>, where \<open>k\<close> is the least index with \<open>n / 1024^k < 1024\<close>, capped at the last unit of the
  table (index 3, GB, for \<open>format_size\<close>; index 4 for \<open>human_size\<close>).
\<close>

theorem size_formats_least_unit:
  assumes "0 < n" "n < 2 ^ 53"
  shows "format_size 0 = Inr ''0 B''
     \<and> human_size 0 = Inr (ustr ''0 '' @ [1041])
     \<and> format_size n =
         Inr (format_fixed 2 (of_nat n / 1024 ^ least_unit_index 3 n) @ '' ''
              @ [''B'', ''KB'', ''MB'', ''GB''] ! least_unit_index 3 n)
     \<and> human_size n =
         Inr (ustr (format_fixed 1 (of_nat n / 1024 ^ least_unit_index 4 n)) @ ustr '' ''
              @ units_ru ! least_unit_index 4 n)"
proof -
  have "format_size 0 = Inr ''0 B''" by (simp add: format_size_def)
  moreover have "human_size 0 = Inr (ustr ''0 '' @ [1041])" by (simp add: human_size_def)
  ultimately show ?thesis
    using format_size_units [OF assms] human_size_units [OF assms] by blast
qed

theorem size_formats_least_unit_witness:
  "(0::nat) < 1536 \<and> (1536::nat) < 2 ^ 53
   \<and> format_size 1536 = Inr ''1.50 KB''
   \<and> human_size 1536 = Inr (ustr ''1.5 '' @ [1050, 1041])"
proof -
  have p: "(0::nat) < 1536" "(1536::nat) < 2 ^ 53" by simp_all
  have k3: "least_unit_index 3 1536 = 1"
    by (rule least_unit_index_eq) simp_all
  have k4: "least_unit_index 4 1536 = 1"
    by (rule least_unit_index_eq) simp_all
  have f2: "format_fixed 2 (of_nat 1536 / 1024 ^ 1) = ''1.50''"
    by (simp add: format_fixed_def round_half_even_def digits.simps Let_def floor_rat_numeral)
  have f1: "format_fixed 1 (of_nat 1536 / 1024 ^ 1) = ''1.5''"
    by (simp add: format_fixed_def round_half_even_def digits.simps Let_def floor_rat_numeral)
  from size_formats_least_unit [OF p]
  have "format_size 1536 = Inr ''1.50 KB''"
    and "human_size 1536 = Inr (ustr ''1.5 '' @ [1050, 1041])"
    by (simp_all only: k3 k4 f2 f1) (simp_all add: units_ru_def ustr_def)
  with p show ?thesis by blast
qed

text \<open>
  The claim as stated, for every size \<open>n > 0\<close>, fails from \<open>2^53\<close> on, where \<open>float(n)\<close>
  rounds: \<open>format_size(2^53 + 2^27 + 1)\<close> is \<open>"8388608.12 GB"\<close>, while \<open>n / 1024^3\<close> is
  just above 8388608.125 and is 8388608.13 to two decimal places.
\<close>

theorem size_formats_counterexample:
  "format_size 9007199388958721 = Inr ''8388608.12 GB''
   \<and> format_fixed 2 (of_nat 9007199388958721 / 1024 ^ least_unit_index 3 9007199388958721)
         @ '' '' @ [''B'', ''KB'', ''MB'', ''GB''] ! least_unit_index 3 9007199388958721
       = ''8388608.13 GB''"
proof -
  have a: "format_size 9007199388958721 = Inr ''8388608.12 GB''"
    by (simp add: format_size_def format_size_loop.simps round53_def bit_length.simps
        format_fixed_def round_half_even_def digits.simps Let_def floor_rat_numeral)
  have k: "least_unit_index 3 9007199388958721 = 3"
    by (rule least_unit_index_eq) (simp_all add: less_Suc_eq numeral_3_eq_3)
  have b: "format_fixed 2 (of_nat 9007199388958721 / 1024 ^ 3) = ''8388608.13''"
    by (simp add: format_fixed_def round_half_even_def digits.simps Let_def floor_rat_numeral)
  from a k b show ?thesis by simp
qed

section \<open>Properties of \<open>fetch_api_data\<close>\<close>

lemma hd_rev_sort: "xs \<noteq> [] \<Longrightarrow> hd (rev (sort xs)) = Max (set (xs :: string list))"
proof -
  assume ne: "xs \<noteq> []"
  then have ne': "sort xs \<noteq> []" by (metis length_0_conv length_sort)
  have "hd (rev (sort xs)) = last (sort xs)" using ne' by (simp add: hd_rev)
  also have "\<dots> = Max (set (sort xs))"
  proof (rule sym, rule Max_eqI)
    show "finite (set (sort xs))" by simp
    show "last (sort xs) \<in> set (sort xs)" by (rule last_in_set [OF ne'])
    fix y assume "y \<in> set (sort xs)"
    then obtain i where i: "i < length (sort xs)" "y = sort xs ! i"
      by (metis in_set_conv_nth)
    have "sorted (sort xs)" by simp
    then have "sort xs ! i \<le> sort xs ! (length (sort xs) - 1)"
      using i(1) by (intro sorted_nth_mono) auto
    then show "y \<le> last (sort xs)" using i ne' by (simp add: last_conv_nth)
  qed
  finally show ?thesis by simp
qed

lemma use_latest_result:
  "use_latest S cs I = (cs \<noteq> [], if cs \<noteq> []
      then I\<lparr>cache_file := Some (os_path_join (get_cache_dir S) (hd cs))\<rparr> else I)"
  by (simp add: use_latest_def)

lemma download_api_requests:
  "requests (snd (download_api S N now cs I)) = requests I + 1"
  by (cases "net_response N")
    (auto simp: download_api_def use_latest_def Let_def split: sum.splits)

lemma download_api_URLError:
  "net_response N = RaisesURLError \<Longrightarrow>
   download_api S N now cs I = use_latest S cs (I\<lparr>requests := requests I + 1\<rparr>)"
  by (simp add: download_api_def)

text \<open>
  Claim C3, amended. Provided that the cache directory can be listed, that the modification
  time of the newest cache file, if there is a cache file, can be read, and that
  \<open>cache_max_age_hours\<close> is a number when the call is made without \<open>force\<close> and there is a
  cache file: \<open>fetch_api_data\<close> returns, makes at most one request, and recovers from a
  failure only through the cache. Called without \<open>force\<close> when the newest cache file is
  younger than \<open>cache_max_age_hours\<close>, it returns \<open>True\<close> with that file as
  \<open>self.cache_file\<close> and makes no request. In offline mode it makes no request. In offline
  mode, or when the request raises URLError, it returns \<open>True\<close> with the newest cache file
  if there is a cache file and \<open>False\<close> if there is none.
\<close>

theorem fetch_api_data_cache_fallback:
  assumes listable: "cache_dir_listable I"
    and mtime: "cache_names (listing I) \<noteq> [] \<longrightarrow>
                  (\<exists>t. getmtime (listing I) (newest_cache (listing I)) = Inr t)"
    and number: "\<not> force \<and> cache_names (listing I) \<noteq> [] \<longrightarrow>
                  (\<exists>h. setting_number (get_cache_max_age_hours S) = Some h)"
  shows "\<exists>ret I'. fetch_api_data S N now force I = Inr (ret, I')
     \<and> requests I' \<le> requests I + 1
     \<and> (\<forall>t h. \<not> force \<and> cache_names (listing I) \<noteq> []
            \<and> getmtime (listing I) (newest_cache (listing I)) = Inr t
            \<and> setting_number (get_cache_max_age_hours S) = Some h
            \<and> now - t < h * 3600
          \<longrightarrow> ret \<and> requests I' = requests I
              \<and> cache_file I' = Some (os_path_join (get_cache_dir S) (newest_cache (listing I))))
     \<and> (get_offline_mode S \<longrightarrow> requests I' = requests I)
     \<and> (get_offline_mode S \<or> net_response N = RaisesURLError \<longrightarrow>
          (cache_names (listing I) \<noteq> [] \<longrightarrow>
             ret \<and> cache_file I' = Some (os_path_join (get_cache_dir S) (newest_cache (listing I))))
        \<and> (cache_names (listing I) = [] \<longrightarrow> \<not> ret))"
proof -
  define cs where "cs = rev (sort (cache_names (listing I)))"
  have cs_ne: "cs \<noteq> [] \<longleftrightarrow> cache_names (listing I) \<noteq> []"
    by (metis cs_def length_0_conv length_rev length_sort)
  have hd_cs: "cache_names (listing I) \<noteq> [] \<Longrightarrow> hd cs = newest_cache (listing I)"
    by (simp add: cs_def hd_rev_sort newest_cache_def)
  show ?thesis
  proof (cases "cache_names (listing I) = []")
    case True
    then have e: "cs = []" using cs_ne by simp
    have f: "fetch_api_data S N now force I =
        Inr (if get_offline_mode S then use_latest S [] I else download_api S N now [] I)"
      using e listable by (simp add: fetch_api_data_def cs_def [symmetric])
    show ?thesis
    proof (cases "get_offline_mode S")
      case off: True
      with f True show ?thesis by (auto simp: use_latest_def)
    next
      case on: False
      obtain ret I' where r: "download_api S N now [] I = (ret, I')" by force
      have q: "requests I' = requests I + 1"
        using download_api_requests [of S N now "[]" I] r by simp
      have u: "net_response N = RaisesURLError \<Longrightarrow> \<not> ret"
        using r by (simp add: download_api_URLError use_latest_def)
      from f on r q u True show ?thesis by auto
    qed
  next
    case False
    then have ne: "cs \<noteq> []" using cs_ne by simp
    have hd: "hd cs = newest_cache (listing I)" using hd_cs False by simp
    from mtime False obtain t where t: "getmtime (listing I) (newest_cache (listing I)) = Inr t"
      by blast
    let ?latest = "I\<lparr>cache_file := Some (os_path_join (get_cache_dir S) (newest_cache (listing I)))\<rparr>"
    define fresh where
      "fresh \<longleftrightarrow> \<not> force \<and> (\<exists>h. setting_number (get_cache_max_age_hours S) = Some h \<and> now - t < h * 3600)"
    have f: "fetch_api_data S N now force I =
        Inr (if fresh then (True, ?latest)
             else if get_offline_mode S then use_latest S cs I
             else download_api S N now cs I)"
    proof (cases force)
      case True
      then show ?thesis
        using ne t hd listable by (simp add: fetch_api_data_def cs_def [symmetric] fresh_def)
    next
      case nf: False
      with number False obtain h where h: "setting_number (get_cache_max_age_hours S) = Some h"
        by blast
      with nf show ?thesis
        using ne t hd listable by (simp add: fetch_api_data_def cs_def [symmetric] fresh_def)
    qed
    have ul: "\<And>J. use_latest S cs J
        = (True, J\<lparr>cache_file := Some (os_path_join (get_cache_dir S) (newest_cache (listing I)))\<rparr>)"
      using ne hd by (simp add: use_latest_def)
    show ?thesis
    proof (cases fresh)
      case True
      with f t False show ?thesis by (auto simp: fresh_def)
    next
      case stale: False
      then have st: "\<And>h. \<not> force \<Longrightarrow> setting_number (get_cache_max_age_hours S) = Some h \<Longrightarrow>
          \<not> now - t < h * 3600"
        by (auto simp: fresh_def)
      show ?thesis
      proof (cases "get_offline_mode S")
        case off: True
        with f stale t False ul st show ?thesis by auto
      next
        case on: False
        obtain ret I' where r: "download_api S N now cs I = (ret, I')" by force
        have q: "requests I' = requests I + 1"
          using download_api_requests [of S N now cs I] r by simp
        have u: "net_response N = RaisesURLError \<Longrightarrow>
            ret \<and> cache_file I' = Some (os_path_join (get_cache_dir S) (newest_cache (listing I)))"
          using r ul by (auto simp: download_api_URLError)
        from f stale on r q u t False st show ?thesis by auto
      qed
    qed
  qed
qed

text \<open>
  A run of the theorem: two cache files and a log file, both cache files stale, and a
  request that raises URLError. The call returns \<open>True\<close> with the newer cache file.
\<close>

theorem fetch_api_data_cache_fallback_witness:
  "cache_names
     [\<lparr>entry_name = ''api-cache-20240101_000000.json'', entry_mtime = Some 1000,
         entry_locked = False\<rparr>,
      \<lparr>entry_name = ''installer.log'', entry_mtime = Some 5000, entry_locked = False\<rparr>,
      \<lparr>entry_name = ''api-cache-20240102_000000.json'', entry_mtime = Some 2000,
         entry_locked = False\<rparr>]
     = [''api-cache-20240101_000000.json'', ''api-cache-20240102_000000.json'']
   \<and> (\<exists>I'. fetch_api_data
         \<lparr>get_cache_dir = ''/tmp/bellsoft-java'', get_cache_max_age_hours = IntValue 24,
            get_offline_mode = False, get_keep_old_cache = IntValue 3\<rparr>
         \<lparr>net_response = RaisesURLError, net_stamp = ''20240105_000000'', net_write_ok = True\<rparr>
         500000 False
         \<lparr>cache_dir_listable = True,
          listing =
            [\<lparr>entry_name = ''api-cache-20240101_000000.json'', entry_mtime = Some 1000,
                entry_locked = False\<rparr>,
             \<lparr>entry_name = ''installer.log'', entry_mtime = Some 5000, entry_locked = False\<rparr>,
             \<lparr>entry_name = ''api-cache-20240102_000000.json'', entry_mtime = Some 2000,
                entry_locked = False\<rparr>],
          cache_file = None, api_data = None, requests = 0\<rparr> = Inr (True, I')
        \<and> cache_file I' = Some ''/tmp/bellsoft-java/api-cache-20240102_000000.json'')"
proof -
  let ?L = "[\<lparr>entry_name = ''api-cache-20240101_000000.json'', entry_mtime = Some 1000,
                entry_locked = False\<rparr>,
             \<lparr>entry_name = ''installer.log'', entry_mtime = Some 5000, entry_locked = False\<rparr>,
             \<lparr>entry_name = ''api-cache-20240102_000000.json'', entry_mtime = Some 2000,
                entry_locked = False\<rparr>]"
  let ?S = "\<lparr>get_cache_dir = ''/tmp/bellsoft-java'', get_cache_max_age_hours = IntValue 24,
            get_offline_mode = False, get_keep_old_cache = IntValue 3\<rparr>"
  let ?N = "\<lparr>net_response = RaisesURLError, net_stamp = ''20240105_000000'',
            net_write_ok = True\<rparr>"
  let ?I = "\<lparr>cache_dir_listable = True, listing = ?L, cache_file = None, api_data = None,
            requests = 0\<rparr>"
  have c: "cache_names ?L
      = [''api-cache-20240101_000000.json'', ''api-cache-20240102_000000.json'']"
    by (simp add: cache_names_def startswith_def endswith_def CACHE_FILE_PREFIX_def)
  have m: "newest_cache ?L = ''api-cache-20240102_000000.json''"
    unfolding newest_cache_def c by (simp add: less_eq_char_def max_def)
  have j: "os_path_join ''/tmp/bellsoft-java'' ''api-cache-20240102_000000.json''
      = ''/tmp/bellsoft-java/api-cache-20240102_000000.json''"
    by (simp add: os_path_join_def startswith_def endswith_def)
  have g: "getmtime ?L ''api-cache-20240102_000000.json'' = Inr 2000"
    by (simp add: getmtime_def)
  have h1: "cache_dir_listable ?I" by simp
  have h2: "cache_names (listing ?I) \<noteq> [] \<longrightarrow>
      (\<exists>t. getmtime (listing ?I) (newest_cache (listing ?I)) = Inr t)"
    by (simp add: m g)
  have h3: "\<not> False \<and> cache_names (listing ?I) \<noteq> [] \<longrightarrow>
      (\<exists>h. setting_number (get_cache_max_age_hours ?S) = Some h)"
    by simp
  from fetch_api_data_cache_fallback [OF h1 h2 h3, of ?N 500000]
  obtain ret I' where "fetch_api_data ?S ?N 500000 False ?I = Inr (ret, I')"
    and "ret \<and> cache_file I' = Some ''/tmp/bellsoft-java/api-cache-20240102_000000.json''"
    by (auto simp: c m j)
  then have "\<exists>I'. fetch_api_data ?S ?N 500000 False ?I = Inr (True, I')
      \<and> cache_file I' = Some ''/tmp/bellsoft-java/api-cache-20240102_000000.json''"
    by auto
  with c show ?thesis by blast
qed

text \<open>
  The claim as first stated fails where the function raises before it reaches the offline
  branch. In offline mode: with a cache directory that cannot be listed the call raises
  OSError instead of returning \<open>False\<close>, and with a cache file and the setting
  \<open>cache_max_age_hours\<close> holding a string it raises TypeError instead of returning \<open>True\<close>.
\<close>

theorem fetch_api_data_counterexample:
  "fetch_api_data
     \<lparr>get_cache_dir = ''/tmp/new-cache'', get_cache_max_age_hours = IntValue 24,
        get_offline_mode = True, get_keep_old_cache = IntValue 3\<rparr>
     \<lparr>net_response = RaisesURLError, net_stamp = ''20240105_000000'', net_write_ok = True\<rparr>
     500000 True
     \<lparr>cache_dir_listable = False, listing = [], cache_file = None, api_data = None,
        requests = 0\<rparr>
     = Inl OSError
   \<and> fetch_api_data
     \<lparr>get_cache_dir = ''/tmp/bellsoft-java'', get_cache_max_age_hours = OtherValue,
        get_offline_mode = True, get_keep_old_cache = IntValue 3\<rparr>
     \<lparr>net_response = RaisesURLError, net_stamp = ''20240105_000000'', net_write_ok = True\<rparr>
     500000 False
     \<lparr>cache_dir_listable = True,
        listing = [\<lparr>entry_name = ''api-cache-20240102_000000.json'', entry_mtime = Some 2000,
                    entry_locked = False\<rparr>],
        cache_file = None, api_data = None, requests = 0\<rparr>
     = Inl TypeError"
  by (simp add: fetch_api_data_def cache_names_def startswith_def endswith_def
      CACHE_FILE_PREFIX_def getmtime_def)

section \<open>Properties of \<open>download_file\<close>\<close>

lemma read_loop_written:
  "fst (read_loop S reads ends_ok written sp) = written @ concat (takeWhile (\<lambda>chunk. chunk \<noteq> []) reads)"
  by (induction reads arbitrary: written sp) auto

lemma read_loop_finished:
  "snd (snd (read_loop S reads ends_ok written sp)) = (ends_ok \<or> [] \<in> set reads)"
  by (induction reads arbitrary: written sp) auto

lemma read_loop_show_progress:
  "fst (snd (read_loop S reads ends_ok written sp))
     = (if takeWhile (\<lambda>chunk. chunk \<noteq> []) reads = [] then sp else Some (get_show_progress S))"
  by (induction reads arbitrary: written sp) auto

lemma fresh_download_checked:
  assumes "e \<noteq> []" "get_check_sha1 S"
  shows "downloads (fresh_download sha1 S p expected_size (Some e) E) = 1
     \<and> raised (fresh_download sha1 S p expected_size (Some e) E) = None
     \<and> (\<forall>q. returned_path (fresh_download sha1 S p expected_size (Some e) E) = Some q \<longrightarrow>
          (\<exists>content. file_after (fresh_download sha1 S p expected_size (Some e) E) = Some content
             \<and> py_lower (sha1 content) = py_lower e))
     \<and> (\<forall>n reads ends_ok. env_transfer E = Transfer n reads ends_ok
            \<and> py_lower (sha1 (concat (takeWhile (\<lambda>chunk. chunk \<noteq> []) reads))) \<noteq> py_lower e \<longrightarrow>
          returned_path (fresh_download sha1 S p expected_size (Some e) E) = None
          \<and> file_after (fresh_download sha1 S p expected_size (Some e) E) = None)"
proof (cases "env_transfer E")
  case FailsBeforeWrite
  then show ?thesis by (simp add: fresh_download_def Let_def)
next
  case (Transfer n reads ends_ok)
  obtain content sp finished where rl: "read_loop S reads ends_ok [] None = (content, sp, finished)"
    by (cases "read_loop S reads ends_ok [] None") auto
  from read_loop_written [of S reads ends_ok "[]" None] rl
  have c: "content = concat (takeWhile (\<lambda>chunk. chunk \<noteq> []) reads)" by simp
  show ?thesis
    using assms Transfer rl c by (auto simp: fresh_download_def Let_def)
qed

text \<open>
  Claim C2. With a non-empty \<open>expected_sha1\<close> and \<open>check_sha1\<close> enabled: when
  \<open>download_file\<close> returns a path, the file there has a SHA1 digest equal to
  \<open>expected_sha1\<close> up to letter case; after a download that was written to the end (the bytes
  read before the first empty read) and whose digest does not match, the file is deleted and
  \<open>None\<close> is returned; a path is returned without a request only for a file that was there
  before, has the expected size and has a matching digest; and when an exception leaves the
  function no path is returned and the file is as it was.
\<close>

theorem download_file_sha1_verified:
  assumes "e \<noteq> []" "get_check_sha1 S"
  shows "(\<forall>q. returned_path (download_file sha1 S dir filename expected_size (Some e) E existing) = Some q
            \<longrightarrow> (\<exists>content.
                   file_after (download_file sha1 S dir filename expected_size (Some e) E existing)
                     = Some content
                   \<and> py_lower (sha1 content) = py_lower e))
     \<and> (\<forall>n reads ends_ok.
            downloads (download_file sha1 S dir filename expected_size (Some e) E existing) = 1
            \<and> env_transfer E = Transfer n reads ends_ok \<and> env_disk_ok E
            \<and> (ends_ok \<or> [] \<in> set reads)
            \<and> py_lower (sha1 (concat (takeWhile (\<lambda>chunk. chunk \<noteq> []) reads))) \<noteq> py_lower e \<longrightarrow>
          returned_path (download_file sha1 S dir filename expected_size (Some e) E existing) = None
          \<and> file_after (download_file sha1 S dir filename expected_size (Some e) E existing) = None)
     \<and> (\<forall>q. returned_path (download_file sha1 S dir filename expected_size (Some e) E existing) = Some q
            \<and> downloads (download_file sha1 S dir filename expected_size (Some e) E existing) = 0
          \<longrightarrow> (\<exists>content. existing = Some content
                 \<and> expected_size = PNum (of_nat (length content))
                 \<and> py_lower (sha1 content) = py_lower e
                 \<and> file_after (download_file sha1 S dir filename expected_size (Some e) E existing)
                     = Some content))
     \<and> (raised (download_file sha1 S dir filename expected_size (Some e) E existing) \<noteq> None \<longrightarrow>
          returned_path (download_file sha1 S dir filename expected_size (Some e) E existing) = None
          \<and> file_after (download_file sha1 S dir filename expected_size (Some e) E existing)
              = existing)"
proof -
  let ?p = "os_path_join (os_path_join dir ''downloads'') filename"
  let ?d = "fresh_download sha1 S ?p expected_size (Some e) E"
  note fd = fresh_download_checked [OF assms, of sha1 ?p expected_size E]
  let ?r = "download_file sha1 S dir filename expected_size (Some e) E existing"
  let ?reuse = "\<lambda>content. get_download_resume S \<and> truthy expected_size
                  \<and> PNum (of_nat (length content)) = expected_size"
  have r: "?r =
      (if \<not> env_makedirs_ok E
       then \<lparr>returned_path = None, file_after = existing, downloads = 0, raised = Some OSError\<rparr>
       else case existing of
         None \<Rightarrow> ?d
       | Some content \<Rightarrow>
           if ?reuse content \<and> \<not> env_readable E
           then \<lparr>returned_path = None, file_after = existing, downloads = 0,
                  raised = Some PermissionError\<rparr>
           else if ?reuse content \<and> py_lower (sha1 content) = py_lower e
           then \<lparr>returned_path = Some ?p, file_after = Some content, downloads = 0,
                  raised = None\<rparr>
           else ?d)"
    using assms by (auto simp: download_file_def Let_def split: option.splits)
  consider (mk) "\<not> env_makedirs_ok E"
    | (unreadable) content where "env_makedirs_ok E" "existing = Some content"
        "?reuse content" "\<not> env_readable E"
    | (reuse) content where "env_makedirs_ok E" "existing = Some content"
        "?reuse content" "env_readable E" "py_lower (sha1 content) = py_lower e"
    | (download) "?r = ?d"
  proof (cases "env_makedirs_ok E")
    case False
    then show ?thesis by (rule mk)
  next
    case mkok: True
    show ?thesis
    proof (cases existing)
      case None
      with r mkok have "?r = ?d" by simp
      then show ?thesis by (rule download)
    next
      case (Some content)
      show ?thesis
      proof (cases "?reuse content")
        case False
        with r mkok Some have "?r = ?d" by auto
        then show ?thesis by (rule download)
      next
        case ru: True
        show ?thesis
        proof (cases "env_readable E")
          case False
          with mkok Some ru show ?thesis by (intro unreadable)
        next
          case rd: True
          show ?thesis
          proof (cases "py_lower (sha1 content) = py_lower e")
            case True
            with mkok Some ru rd show ?thesis by (intro reuse)
          next
            case False
            with r mkok Some rd have "?r = ?d" by auto
            then show ?thesis by (rule download)
          qed
        qed
      qed
    qed
  qed
  then show ?thesis
  proof cases
    case mk
    with r have "?r = \<lparr>returned_path = None, file_after = existing, downloads = 0,
                       raised = Some OSError\<rparr>" by simp
    then show ?thesis by simp
  next
    case unreadable
    with r have "?r = \<lparr>returned_path = None, file_after = existing, downloads = 0,
                  raised = Some PermissionError\<rparr>" by simp
    then show ?thesis by simp
  next
    case reuse
    with r have "?r = \<lparr>returned_path = Some ?p, file_after = Some content, downloads = 0,
                  raised = None\<rparr>" by simp
    with reuse show ?thesis by simp
  next
    case download
    with fd show ?thesis by simp
  qed
qed

text \<open>
  A run of the theorem: the response delivers \<open>ab\<close>, then an empty read, so the file holds
  \<open>ab\<close>, whose digest matches, and the path is returned.
\<close>

theorem download_file_sha1_verified_witness:
  "''0A1F'' \<noteq> []
   \<and> get_check_sha1 \<lparr>get_download_resume = True, get_check_sha1 = True, get_show_progress = True\<rparr>
   \<and> returned_path (download_file (\<lambda>content. if content = ''ab'' then ''0a1f'' else ''ffff'')
           \<lparr>get_download_resume = True, get_check_sha1 = True, get_show_progress = True\<rparr>
           ''/tmp/bellsoft-java'' ''jdk.tar.gz'' (PNum 2) (Some ''0A1F'')
           \<lparr>env_makedirs_ok = True, env_readable = True,
              env_transfer = Transfer 2 [''ab'', [], ''cd''] True,
              env_disk_ok = True, env_has_color = True\<rparr> None)
       = Some ''/tmp/bellsoft-java/downloads/jdk.tar.gz''
   \<and> (\<exists>content.
         file_after (download_file (\<lambda>content. if content = ''ab'' then ''0a1f'' else ''ffff'')
           \<lparr>get_download_resume = True, get_check_sha1 = True, get_show_progress = True\<rparr>
           ''/tmp/bellsoft-java'' ''jdk.tar.gz'' (PNum 2) (Some ''0A1F'')
           \<lparr>env_makedirs_ok = True, env_readable = True,
              env_transfer = Transfer 2 [''ab'', [], ''cd''] True,
              env_disk_ok = True, env_has_color = True\<rparr> None)
         = Some content
         \<and> py_lower (if content = ''ab'' then ''0a1f'' else ''ffff'') = py_lower ''0A1F'')"
proof -
  let ?S = "\<lparr>get_download_resume = True, get_check_sha1 = True, get_show_progress = True\<rparr>"
  let ?sha1 = "\<lambda>content. if content = ''ab'' then ''0a1f'' else ''ffff''"
  let ?E = "\<lparr>env_makedirs_ok = True, env_readable = True,
              env_transfer = Transfer 2 [''ab'', [], ''cd''] True,
              env_disk_ok = True, env_has_color = True\<rparr>"
  let ?r = "download_file ?sha1 ?S ''/tmp/bellsoft-java'' ''jdk.tar.gz'' (PNum 2) (Some ''0A1F'')
      ?E None"
  have e: "''0A1F'' \<noteq> []" by simp
  have c: "get_check_sha1 ?S" by simp
  have l: "py_lower ''0a1f'' = py_lower ''0A1F''" by code_simp
  have p: "returned_path ?r = Some ''/tmp/bellsoft-java/downloads/jdk.tar.gz''"
    by (simp add: download_file_def fresh_download_def l os_path_join_def startswith_def
        endswith_def)
  from download_file_sha1_verified [OF e c, of ?sha1 "''/tmp/bellsoft-java''"
      "''jdk.tar.gz''" "PNum 2" ?E None] p
  have "\<exists>content. file_after ?r = Some content \<and> py_lower (?sha1 content) = py_lower ''0A1F''"
    by blast
  with e c p show ?thesis by blast
qed

end
